theory Spec2Isabelle
  imports Main
begin

section \<open>JavaScript values and strings\<close>

text \<open>
  The application is one React component (\<^verbatim>\<open>src/main.jsx\<close>). Its handlers are embedded
  as functions on an explicit state; every promise the code awaits is split into the part
  that runs before the \<^verbatim>\<open>await\<close> and the continuation that runs when the
  promise settles. Strings are byte strings: code units beyond ASCII are outside the model.
  Numbers are integers (the score of the response schema is an INTEGER); a number that is
  not an integer is outside the model.
\<close>

datatype jsvalue =
    JUndefined
  | JNull
  | JBool bool
  | JNum int
  | JStr string
  | JArr "jsvalue list"
  | JObj "(string \<times> jsvalue) list"

datatype js_error = TypeError | SyntaxError | NetworkError

text \<open>What \<^verbatim>\<open>v && ...\<close> and \<^verbatim>\<open>!v\<close> test.\<close>

fun truthy :: "jsvalue \<Rightarrow> bool" where
  "truthy JUndefined = False"
| "truthy JNull = False"
| "truthy (JBool b) = b"
| "truthy (JNum n) = (n \<noteq> 0)"
| "truthy (JStr s) = (s \<noteq> [])"
| "truthy (JArr xs) = True"
| "truthy (JObj kvs) = True"

text \<open>\<^verbatim>\<open>v.k\<close>: reading a member of undefined or null throws a TypeError.\<close>

fun get_member :: "jsvalue \<Rightarrow> string \<Rightarrow> js_error + jsvalue" where
  "get_member JUndefined k = Inl TypeError"
| "get_member JNull k = Inl TypeError"
| "get_member (JObj kvs) k = Inr (case map_of kvs k of None \<Rightarrow> JUndefined | Some v \<Rightarrow> v)"
| "get_member v k = Inr JUndefined"

text \<open>\<^verbatim>\<open>v[0]\<close>.\<close>

fun get_first :: "jsvalue \<Rightarrow> js_error + jsvalue" where
  "get_first JUndefined = Inl TypeError"
| "get_first JNull = Inl TypeError"
| "get_first (JArr xs) = Inr (case xs of [] \<Rightarrow> JUndefined | x # _ \<Rightarrow> x)"
| "get_first (JStr s) = Inr (case s of [] \<Rightarrow> JUndefined | c # _ \<Rightarrow> JStr [c])"
| "get_first (JObj kvs) = Inr (case map_of kvs ''0'' of None \<Rightarrow> JUndefined | Some v \<Rightarrow> v)"
| "get_first v = Inr JUndefined"

definition bind_err :: "js_error + 'a \<Rightarrow> ('a \<Rightarrow> js_error + 'b) \<Rightarrow> js_error + 'b" where
  "bind_err m f = (case m of Inl e \<Rightarrow> Inl e | Inr v \<Rightarrow> f v)"

text \<open>\<^verbatim>\<open>String.prototype.startsWith\<close>, \<^verbatim>\<open>includes\<close>, \<^verbatim>\<open>toLowerCase\<close> and
  \<^verbatim>\<open>split\<close> with a one-character separator.\<close>

definition startsWith :: "string \<Rightarrow> string \<Rightarrow> bool" where
  "startsWith s p = (take (length p) s = p)"

fun str_includes :: "string \<Rightarrow> string \<Rightarrow> bool" where
  "str_includes [] p = (p = [])"
| "str_includes (c # cs) p = (startsWith (c # cs) p \<or> str_includes cs p)"

definition lower_char :: "char \<Rightarrow> char" where
  "lower_char c =
     (case map_of (zip ''ABCDEFGHIJKLMNOPQRSTUVWXYZ'' ''abcdefghijklmnopqrstuvwxyz'') c of
        None \<Rightarrow> c
      | Some d \<Rightarrow> d)"

definition toLowerCase :: "string \<Rightarrow> string" where
  "toLowerCase s = map lower_char s"

fun js_split :: "char \<Rightarrow> string \<Rightarrow> string list" where
  "js_split sep [] = [[]]"
| "js_split sep (c # cs) =
     (if c = sep then [] # js_split sep cs
      else (case js_split sep cs of [] \<Rightarrow> [[c]] | w # ws \<Rightarrow> (c # w) # ws))"

text \<open>\<^verbatim>\<open>xs[i]\<close> on an array: undefined (None) out of range.\<close>

definition nth_opt :: "'a list \<Rightarrow> nat \<Rightarrow> 'a option" where
  "nth_opt xs i = (if i < length xs then Some (xs ! i) else None)"

text \<open>The decimal digits of an integer.\<close>

definition digit_char :: "nat \<Rightarrow> char" where
  "digit_char d = (''0123456789'' ! d)"

fun show_nat :: "nat \<Rightarrow> string" where
  "show_nat n = (if n < 10 then [digit_char n] else show_nat (n div 10) @ [digit_char (n mod 10)])"

definition show_int :: "int \<Rightarrow> string" where
  "show_int i = (if i < 0 then CHR ''-'' # show_nat (nat (- i)) else show_nat (nat i))"

section \<open>The API key\<close>

text \<open>
  What reading \<^verbatim>\<open>import.meta.env?.VITE_GEMINI_API_KEY\<close> can do: throw, find no
  \<^verbatim>\<open>env\<close> object, find no such variable, or find its value (the bundler exposes such
  variables as strings).
\<close>

datatype env_read = EnvThrows | EnvUndefined | VarUndefined | VarValue string

fun getApiKey :: "env_read \<Rightarrow> string" where
  "getApiKey EnvThrows = ''''"
| "getApiKey EnvUndefined = ''''"
| "getApiKey VarUndefined = ''''"
| "getApiKey (VarValue key) = (if key \<noteq> [] then key else '''')"

section \<open>The component's state\<close>

datatype track = Live | Ended

record upload_file =
  ftype :: string

record request =
  url :: string
  prompt :: string
  mimeType :: string
  data :: "string option"


text \<open>
  What a render shows is decided by the five \<^verbatim>\<open>useState\<close> cells as they were when React
  last rendered; the handlers on the page are the closures of that render.
\<close>

record view =
  r_image :: "string option"
  r_isAnalyzing :: bool
  r_results :: jsvalue
  r_error :: string
  r_isCameraActive :: bool

text \<open>
  The \<^verbatim>\<open>useState\<close> cells and refs of \<^verbatim>\<open>App\<close>, and the platform around them: the
  media streams \<^verbatim>\<open>getUserMedia\<close> has handed out (a store addressed by handle, each
  stream the list of its tracks), the log of outbound requests, the number of promises
  of each kind that have not settled, and the cells as the last render saw them.
  \<^verbatim>\<open>image\<close> is null (None) or a data-URI string.
\<close>

record app =
  image_v :: "string option"
  isAnalyzing :: bool
  results :: jsvalue
  error :: string
  isCameraActive :: bool
  streamRef :: "nat option"
  videoRef :: bool
  streams :: "track list list"
  requests :: "request list"
  pendingCamera :: nat
  pendingReads :: nat
  pendingFetch :: nat
  rendered :: view

definition init :: app where
  "init = \<lparr> image_v = None, isAnalyzing = False, results = JNull, error = '''',
            isCameraActive = False, streamRef = None, videoRef = False,
            streams = [], requests = [],
            pendingCamera = 0, pendingReads = 0, pendingFetch = 0,
            rendered = \<lparr> r_image = None, r_isAnalyzing = False, r_results = JNull,
                         r_error = '''', r_isCameraActive = False \<rparr> \<rparr>"

text \<open>\<^verbatim>\<open>image\<close> as a condition: null and the empty string are falsy.\<close>

definition truthy_image :: "string option \<Rightarrow> bool" where
  "truthy_image img = (case img of None \<Rightarrow> False | Some u \<Rightarrow> u \<noteq> [])"

definition has_image :: "app \<Rightarrow> bool" where
  "has_image s = (case image_v s of None \<Rightarrow> False | Some u \<Rightarrow> u \<noteq> [])"

subsection \<open>What is rendered\<close>

text \<open>The panels a render of the cells of \<open>s\<close> consists of.\<close>

definition idle_panel :: "app \<Rightarrow> bool" where
  "idle_panel s = (\<not> has_image s \<and> \<not> isCameraActive s)"

definition camera_panel :: "app \<Rightarrow> bool" where
  "camera_panel s = isCameraActive s"

definition preview_panel :: "app \<Rightarrow> bool" where
  "preview_panel s = (has_image s \<and> \<not> truthy (results s) \<and> \<not> isAnalyzing s)"

definition spinner :: "app \<Rightarrow> bool" where
  "spinner s = isAnalyzing s"

definition results_panel :: "app \<Rightarrow> bool" where
  "results_panel s = truthy (results s)"

definition error_banner :: "app \<Rightarrow> bool" where
  "error_banner s = (error s \<noteq> [])"

text \<open>
  A handler only queues its updates; React renders again later (after a user's click and
  before the next one; two events dispatched back to back, before React has rendered, see
  the same page).
  A render takes the cells as they are, and the video element exists, and
  \<^verbatim>\<open>videoRef.current\<close> is set, exactly while the camera panel is rendered. (The effect
  that then hands the stream to the video element changes nothing of this state.)
\<close>

definition view_of :: "app \<Rightarrow> view" where
  "view_of s = \<lparr> r_image = image_v s, r_isAnalyzing = isAnalyzing s, r_results = results s,
                 r_error = error s, r_isCameraActive = isCameraActive s \<rparr>"

definition commit :: "app \<Rightarrow> app" where
  "commit s = s\<lparr> videoRef := isCameraActive s, rendered := view_of s \<rparr>"

text \<open>The state with its cells as the page on screen shows them.\<close>

definition shown :: "app \<Rightarrow> app" where
  "shown s = s\<lparr> image_v := r_image (rendered s), isAnalyzing := r_isAnalyzing (rendered s),
                results := r_results (rendered s), error := r_error (rendered s),
                isCameraActive := r_isCameraActive (rendered s) \<rparr>"

subsection \<open>Upload\<close>

definition invalid_file_msg :: string where
  "invalid_file_msg = ''Please upload a valid image file.''"

definition handleImageUpload :: "upload_file option \<Rightarrow> app \<Rightarrow> app" where
  "handleImageUpload f s =
     (case f of
        None \<Rightarrow> s
      | Some fl \<Rightarrow>
          if \<not> startsWith (ftype fl) ''image/'' then s\<lparr> error := invalid_file_msg \<rparr>
          else s\<lparr> pendingReads := pendingReads s + 1 \<rparr>)"

definition reader_onload :: "string \<Rightarrow> app \<Rightarrow> app" where
  "reader_onload res s =
     s\<lparr> image_v := Some res, results := JNull, error := '''',
        pendingReads := pendingReads s - 1 \<rparr>"

subsection \<open>Camera\<close>

definition camera_msg :: string where
  "camera_msg = ''Could not access camera. Please check permissions or upload a photo.''"

definition startCamera_begin :: "app \<Rightarrow> app" where
  "startCamera_begin s = s\<lparr> error := '''', pendingCamera := pendingCamera s + 1 \<rparr>"

text \<open>The promise resolves with a new stream of \<open>n\<close> live tracks.\<close>

definition startCamera_resolved :: "nat \<Rightarrow> app \<Rightarrow> app" where
  "startCamera_resolved n s =
     s\<lparr> streams := streams s @ [replicate n Live],
        streamRef := Some (length (streams s)),
        isCameraActive := True,
        pendingCamera := pendingCamera s - 1 \<rparr>"

definition startCamera_rejected :: "app \<Rightarrow> app" where
  "startCamera_rejected s = s\<lparr> error := camera_msg, pendingCamera := pendingCamera s - 1 \<rparr>"

definition stopCamera :: "app \<Rightarrow> app" where
  "stopCamera s =
     (case streamRef s of
        None \<Rightarrow> s
      | Some h \<Rightarrow>
          s\<lparr> streams := (streams s)[h := map (\<lambda>t. Ended) (streams s ! h)],
             streamRef := None \<rparr>)
     \<lparr> isCameraActive := False \<rparr>"

text \<open>\<open>shot\<close> is what \<^verbatim>\<open>canvas.toDataURL('image/jpeg', 0.8)\<close> returns for the frame.\<close>

definition capturePhoto :: "string \<Rightarrow> app \<Rightarrow> app" where
  "capturePhoto shot s = (if videoRef s then stopCamera (s\<lparr> image_v := Some shot \<rparr>) else s)"

text \<open>A media stream is an open session while one of its tracks is live.\<close>

definition session_open :: "app \<Rightarrow> nat \<Rightarrow> bool" where
  "session_open s h = (Live \<in> set (streams s ! h))"

definition open_sessions :: "app \<Rightarrow> nat list" where
  "open_sessions s = filter (session_open s) [0 ..< length (streams s)]"

subsection \<open>Analysis\<close>

definition endpoint :: string where
  "endpoint = ''https://generativelanguage.googleapis.com/v1beta/models/gemini-2.5-flash-preview-09-2025:generateContent?key=''"

definition analysis_prompt :: string where
  "analysis_prompt = ''Analyze these lips for hydration levels. Provide a 1-100 hydration score and status.''"

definition analysis_failed_msg :: string where
  "analysis_failed_msg = ''Analysis failed. Check your API key in Vercel settings.''"

text \<open>\<^verbatim>\<open>image.split(',')[1]\<close>.\<close>

definition base64Data :: "string \<Rightarrow> string option" where
  "base64Data img = nth_opt (js_split CHR '','' img) 1"

definition build_request :: "string \<Rightarrow> string \<Rightarrow> request" where
  "build_request apiKey img =
     \<lparr> url = endpoint @ apiKey, prompt = analysis_prompt, mimeType = ''image/jpeg'',
       data = base64Data img \<rparr>"

text \<open>\<^verbatim>\<open>analyzeLips\<close> up to its first \<^verbatim>\<open>await\<close>: the guard, the two updates and the
  call of \<^verbatim>\<open>fetch\<close>. \<open>img\<close> is the \<^verbatim>\<open>image\<close> of the closure, the one of the render the
  handler belongs to.\<close>

definition analyzeLips_call :: "string \<Rightarrow> string option \<Rightarrow> app \<Rightarrow> app" where
  "analyzeLips_call apiKey img s =
     (if \<not> truthy_image img then s
      else s\<lparr> isAnalyzing := True, error := '''',
              requests := requests s @ [build_request apiKey (the img)],
              pendingFetch := pendingFetch s + 1 \<rparr>)"

text \<open>The handler of a render that is up to date.\<close>

definition analyzeLips_begin :: "string \<Rightarrow> app \<Rightarrow> app" where
  "analyzeLips_begin apiKey s = analyzeLips_call apiKey (image_v s) s"

text \<open>How the request ends: the promise of \<^verbatim>\<open>fetch\<close> rejects, the body is not JSON
  (\<^verbatim>\<open>response.json()\<close> rejects), or the body parses to a value.\<close>

datatype fetch_outcome = FetchRejected | BodyNotJson | BodyJson jsvalue

text \<open>\<^verbatim>\<open>data.candidates[0].content.parts[0].text\<close>.\<close>

definition resultText :: "jsvalue \<Rightarrow> js_error + jsvalue" where
  "resultText d =
     bind_err (get_member d ''candidates'') (\<lambda>cs.
     bind_err (get_first cs) (\<lambda>c.
     bind_err (get_member c ''content'') (\<lambda>ct.
     bind_err (get_member ct ''parts'') (\<lambda>ps.
     bind_err (get_first ps) (\<lambda>p.
     get_member p ''text'')))))"

text \<open>The body of the \<^verbatim>\<open>try\<close> after the request. \<open>jsonParse\<close> is the platform's
  \<^verbatim>\<open>JSON.parse\<close>, applied to whatever the text member holds; None is its SyntaxError.\<close>

definition try_block :: "(jsvalue \<Rightarrow> jsvalue option) \<Rightarrow> fetch_outcome \<Rightarrow> js_error + jsvalue" where
  "try_block jsonParse outcome =
     (case outcome of
        FetchRejected \<Rightarrow> Inl NetworkError
      | BodyNotJson \<Rightarrow> Inl SyntaxError
      | BodyJson d \<Rightarrow>
          bind_err (resultText d) (\<lambda>t.
            case jsonParse t of None \<Rightarrow> Inl SyntaxError | Some r \<Rightarrow> Inr r))"

text \<open>The continuation: \<^verbatim>\<open>setResults\<close> or the \<^verbatim>\<open>catch\<close>, then the \<^verbatim>\<open>finally\<close>.\<close>

definition analyzeLips_settled :: "(jsvalue \<Rightarrow> jsvalue option) \<Rightarrow> fetch_outcome \<Rightarrow> app \<Rightarrow> app" where
  "analyzeLips_settled jsonParse outcome s =
     (case try_block jsonParse outcome of
        Inr r \<Rightarrow> s\<lparr> results := r \<rparr>
      | Inl e \<Rightarrow> s\<lparr> error := analysis_failed_msg \<rparr>)
     \<lparr> isAnalyzing := False, pendingFetch := pendingFetch s - 1 \<rparr>"

subsection \<open>The two inline handlers\<close>

definition retake :: "app \<Rightarrow> app" where
  "retake s = s\<lparr> image_v := None \<rparr>"

definition tryAgain :: "app \<Rightarrow> app" where
  "tryAgain s = s\<lparr> results := JNull \<rparr>"

section \<open>Presentation\<close>

text \<open>\<^verbatim>\<open>status?.toLowerCase() || ''\<close>: a value that is neither absent nor a string has
  no \<^verbatim>\<open>toLowerCase\<close>, and the call throws.\<close>

fun lowered_status :: "jsvalue \<Rightarrow> js_error + string" where
  "lowered_status JUndefined = Inr ''''"
| "lowered_status JNull = Inr ''''"
| "lowered_status (JStr t) = Inr (toLowerCase t)"
| "lowered_status v = Inl TypeError"

text \<open>The second parameter defaults to \<^verbatim>\<open>'bg'\<close> when it is left out (None).\<close>

definition getStatusColor :: "jsvalue \<Rightarrow> string option \<Rightarrow> js_error + string" where
  "getStatusColor status type =
     (let ty = (case type of None \<Rightarrow> ''bg'' | Some t \<Rightarrow> t) in
      bind_err (lowered_status status) (\<lambda>s.
        if str_includes s ''well'' then
          Inr (if ty = ''bg'' then ''bg-emerald-500'' else ''text-emerald-600'')
        else if str_includes s ''mild'' then
          Inr (if ty = ''bg'' then ''bg-amber-500'' else ''text-amber-600'')
        else Inr (if ty = ''bg'' then ''bg-rose-500'' else ''text-rose-600'')))"

text \<open>
  What rendering a piece of the page comes to: it is shown, or it throws (the component has
  no error boundary, so nothing is shown then), or the model does not say.
\<close>

datatype 'a outcome = Shown 'a | Throws | Unmodelled

text \<open>An integer in the safe range prints as its decimal digits. Beyond it a number prints
  rounded or in exponent notation, which is not modelled.\<close>

definition safe_integer :: "int \<Rightarrow> bool" where
  "safe_integer n = (\<bar>n\<bar> \<le> 9007199254740991)"

fun join_children :: "string outcome list \<Rightarrow> string outcome" where
  "join_children [] = Shown []"
| "join_children (c # cs) =
     (case c of
        Throws \<Rightarrow> Throws
      | Shown a \<Rightarrow>
          (case join_children cs of Shown b \<Rightarrow> Shown (a @ b) | Throws \<Rightarrow> Throws
           | Unmodelled \<Rightarrow> Unmodelled)
      | Unmodelled \<Rightarrow>
          (case join_children cs of Throws \<Rightarrow> Throws | Shown b \<Rightarrow> Unmodelled
           | Unmodelled \<Rightarrow> Unmodelled))"

text \<open>How React renders a value as a child: numbers and strings as text, undefined, null and
  booleans as nothing, an array child by child; for a plain object it throws.\<close>

fun render_child :: "jsvalue \<Rightarrow> string outcome" where
  "render_child (JNum n) = (if safe_integer n then Shown (show_int n) else Unmodelled)"
| "render_child (JStr s) = Shown s"
| "render_child (JArr xs) = join_children (map render_child xs)"
| "render_child (JObj kvs) = Throws"
| "render_child v = Shown ''''"

text \<open>\<^verbatim>\<open>{results.k}\<close> as a child.\<close>

definition member_child :: "jsvalue \<Rightarrow> string \<Rightarrow> string outcome" where
  "member_child r k = (case get_member r k of Inl e \<Rightarrow> Throws | Inr v \<Rightarrow> render_child v)"

text \<open>The heading of the result panel, \<^verbatim>\<open>{results.dehydrationScore}%\<close>, and the class
  of its box, \<^verbatim>\<open>getStatusColor(results.overallStatus, 'bg')\<close>.\<close>

definition displayed_score :: "jsvalue \<Rightarrow> string outcome" where
  "displayed_score r =
     (case member_child r ''dehydrationScore'' of
        Shown t \<Rightarrow> Shown (t @ ''%'')
      | Throws \<Rightarrow> Throws
      | Unmodelled \<Rightarrow> Unmodelled)"

definition panel_color :: "jsvalue \<Rightarrow> js_error + string" where
  "panel_color r = bind_err (get_member r ''overallStatus'') (\<lambda>st. getStatusColor st (Some ''bg''))"

text \<open>The result panel of a result \<open>r\<close>: the class of the box, the heading, the status
  under it, and the two lines Moisture and Texture (\<^verbatim>\<open>results.dryness\<close>). It throws when
  \<open>getStatusColor\<close> does or a child cannot be rendered.\<close>

record result_view =
  box_class :: string
  heading :: string
  status_line :: string
  moisture_line :: string
  texture_line :: string

definition result_panel_view :: "jsvalue \<Rightarrow> result_view outcome" where
  "result_panel_view r =
     (case panel_color r of
        Inl e \<Rightarrow> Throws
      | Inr cls \<Rightarrow>
          (case displayed_score r of
             Throws \<Rightarrow> Throws
           | sc \<Rightarrow>
          (case member_child r ''overallStatus'' of
             Throws \<Rightarrow> Throws
           | st \<Rightarrow>
          (case member_child r ''moisture'' of
             Throws \<Rightarrow> Throws
           | mo \<Rightarrow>
          (case member_child r ''dryness'' of
             Throws \<Rightarrow> Throws
           | dr \<Rightarrow>
          (case (sc, st, mo, dr) of
             (Shown h, Shown t, Shown m, Shown d) \<Rightarrow>
               Shown \<lparr> box_class = cls, heading = h, status_line = t,
                       moisture_line = m, texture_line = d \<rparr>
           | other \<Rightarrow> Unmodelled))))))"

section \<open>Events\<close>

text \<open>
  What can happen to the component: a click on a button of the page on screen, a change of
  the file input (it is mounted in every state, and a picker opened earlier can deliver
  its file at any time), the settling of a promise that is pending, and a render.
  A click runs the handler of the render on screen; \<open>step\<close> is None for an event that
  cannot happen in the state.
\<close>

datatype event =
    ClickCamera
  | ClickUpload
  | CameraResolved nat
  | CameraRejected
  | ClickCapture string
  | ChooseFile "upload_file option"
  | ReaderLoaded string
  | ClickAnalyze
  | FetchSettled fetch_outcome
  | ClickRetake
  | ClickTryAgain
  | Render

fun enabled :: "event \<Rightarrow> app \<Rightarrow> bool" where
  "enabled ClickCamera s = idle_panel (shown s)"
| "enabled ClickUpload s = idle_panel (shown s)"
| "enabled (CameraResolved n) s = (0 < pendingCamera s)"
| "enabled CameraRejected s = (0 < pendingCamera s)"
| "enabled (ClickCapture shot) s = camera_panel (shown s)"
| "enabled (ChooseFile f) s = True"
| "enabled (ReaderLoaded res) s = (0 < pendingReads s)"
| "enabled ClickAnalyze s = preview_panel (shown s)"
| "enabled (FetchSettled outcome) s = (0 < pendingFetch s)"
| "enabled ClickRetake s = preview_panel (shown s)"
| "enabled ClickTryAgain s = results_panel (shown s)"
| "enabled Render s = True"

text \<open>\<^verbatim>\<open>triggerFileInput\<close> opens the picker of the file input and changes no state.\<close>

definition triggerFileInput :: "app \<Rightarrow> app" where
  "triggerFileInput s = s"

fun handle :: "(jsvalue \<Rightarrow> jsvalue option) \<Rightarrow> string \<Rightarrow> event \<Rightarrow> app \<Rightarrow> app" where
  "handle jsonParse apiKey ClickCamera s = startCamera_begin s"
| "handle jsonParse apiKey ClickUpload s = triggerFileInput s"
| "handle jsonParse apiKey (CameraResolved n) s = startCamera_resolved n s"
| "handle jsonParse apiKey CameraRejected s = startCamera_rejected s"
| "handle jsonParse apiKey (ClickCapture shot) s = capturePhoto shot s"
| "handle jsonParse apiKey (ChooseFile f) s = handleImageUpload f s"
| "handle jsonParse apiKey (ReaderLoaded res) s = reader_onload res s"
| "handle jsonParse apiKey ClickAnalyze s = analyzeLips_call apiKey (r_image (rendered s)) s"
| "handle jsonParse apiKey (FetchSettled outcome) s = analyzeLips_settled jsonParse outcome s"
| "handle jsonParse apiKey ClickRetake s = retake s"
| "handle jsonParse apiKey ClickTryAgain s = tryAgain s"
| "handle jsonParse apiKey Render s = commit s"

definition step :: "(jsvalue \<Rightarrow> jsvalue option) \<Rightarrow> string \<Rightarrow> event \<Rightarrow> app \<Rightarrow> app option" where
  "step jsonParse apiKey ev s =
     (if enabled ev s then Some (handle jsonParse apiKey ev s) else None)"

fun run :: "(jsvalue \<Rightarrow> jsvalue option) \<Rightarrow> string \<Rightarrow> event list \<Rightarrow> app \<Rightarrow> app option" where
  "run jsonParse apiKey [] s = Some s"
| "run jsonParse apiKey (ev # evs) s =
     (case step jsonParse apiKey ev s of
        None \<Rightarrow> None
      | Some s' \<Rightarrow> run jsonParse apiKey evs s')"

text \<open>The events of a user at the page: React renders after each of them.\<close>

fun with_renders :: "event list \<Rightarrow> event list" where
  "with_renders [] = []"
| "with_renders (ev # evs) = ev # Render # with_renders evs"

text \<open>A run of such events in which the Camera button is not pressed again while an
  earlier request for the camera is still pending.\<close>

fun no_overlapping_start :: "(jsvalue \<Rightarrow> jsvalue option) \<Rightarrow> string \<Rightarrow> event list \<Rightarrow> app \<Rightarrow> bool" where
  "no_overlapping_start jsonParse apiKey [] s = True"
| "no_overlapping_start jsonParse apiKey (ev # evs) s =
     ((case ev of ClickCamera \<Rightarrow> pendingCamera s = 0 | _ \<Rightarrow> True) \<and>
      (case step jsonParse apiKey ev s of
         None \<Rightarrow> True
       | Some s' \<Rightarrow> no_overlapping_start jsonParse apiKey evs (commit s')))"

section \<open>Data-URIs\<close>

text \<open>
  The two places that set \<^verbatim>\<open>image\<close> take it from the platform:
  \<^verbatim>\<open>FileReader.readAsDataURL\<close> gives \<^verbatim>\<open>data:<type>;base64,<payload>\<close> for the type of the
  file, and \<^verbatim>\<open>canvas.toDataURL('image/jpeg', 0.8)\<close> gives the same with the type
  \<^verbatim>\<open>image/jpeg\<close>, or \<^verbatim>\<open>data:,\<close> for a canvas without area. The payload is written in the
  base64 alphabet.
\<close>

definition base64_char :: "char \<Rightarrow> bool" where
  "base64_char c =
     (c \<in> set ''ABCDEFGHIJKLMNOPQRSTUVWXYZabcdefghijklmnopqrstuvwxyz0123456789+/='')"

definition data_uri :: "string \<Rightarrow> string \<Rightarrow> string" where
  "data_uri mime payload = ''data:'' @ mime @ '';base64,'' @ payload"

section \<open>The transform as the specification words it\<close>

text \<open>Everything after the first comma of a string (the empty string when it has none).\<close>

definition after_first_comma :: "string \<Rightarrow> string" where
  "after_first_comma s = drop 1 (dropWhile (\<lambda>c. c \<noteq> CHR '','') s)"

section \<open>Invariants of the runs\<close>

text \<open>The page on screen is the render of the cells as they are.\<close>

definition up_to_date :: "app \<Rightarrow> bool" where
  "up_to_date s = (rendered s = view_of s)"

text \<open>A request is outstanding exactly while \<^verbatim>\<open>isAnalyzing\<close> is set.\<close>

definition fetch_inv :: "app \<Rightarrow> bool" where
  "fetch_inv s = (pendingFetch s = (if isAnalyzing s then 1 else 0))"

text \<open>At most one request for the camera is pending, and none while a stream is held; a
  stream is held exactly while the camera panel is on; the video element is mounted exactly
  then; the handle points into the store; and no stream but the one held is open.\<close>

definition camera_inv :: "app \<Rightarrow> bool" where
  "camera_inv s =
     (pendingCamera s \<le> 1
      \<and> (0 < pendingCamera s \<longrightarrow> streamRef s = None)
      \<and> (streamRef s = None) = (\<not> isCameraActive s)
      \<and> videoRef s = isCameraActive s
      \<and> (\<forall>h. streamRef s = Some h \<longrightarrow> h < length (streams s))
      \<and> (\<forall>h < length (streams s). session_open s h \<longrightarrow> streamRef s = Some h))"

section \<open>A reply of the API\<close>

text \<open>
  A reply as the response schema shapes it, for the worked examples: the text of the
  candidate, the value \<^verbatim>\<open>JSON.parse\<close> gives for that text, the envelope around it, and
  \<^verbatim>\<open>JSON.parse\<close> as far as the examples need it (on that text; None elsewhere).
\<close>

definition sample_reply_text :: string where
  "sample_reply_text =
     ''{\"overallStatus\":\"Well Hydrated\",\"dehydrationScore\":82,\"crackness\":\"None\",\"dryness\":\"Smooth\",\"moisture\":\"Good\",\"color\":\"Pink\",\"recommendations\":[\"Keep drinking water\"]}''"

definition sample_result :: jsvalue where
  "sample_result =
     JObj [(''overallStatus'', JStr ''Well Hydrated''),
           (''dehydrationScore'', JNum 82),
           (''crackness'', JStr ''None''),
           (''dryness'', JStr ''Smooth''),
           (''moisture'', JStr ''Good''),
           (''color'', JStr ''Pink''),
           (''recommendations'', JArr [JStr ''Keep drinking water''])]"

definition sample_envelope :: jsvalue where
  "sample_envelope =
     JObj [(''candidates'', JArr [JObj [(''content'',
       JObj [(''parts'', JArr [JObj [(''text'', JStr sample_reply_text)]])])]])]"

definition sample_parse :: "jsvalue \<Rightarrow> jsvalue option" where
  "sample_parse v = (if v = JStr sample_reply_text then Some sample_result else None)"


section \<open>Strings: what the helpers compute\<close>

lemma startsWith_iff: "startsWith s p \<longleftrightarrow> (\<exists>b. s = p @ b)"
  unfolding startsWith_def
  by (metis append_eq_conv_conj append_take_drop_id)

text \<open>\<open>str_includes\<close> is the substring test.\<close>

lemma str_includes_iff: "str_includes s p \<longleftrightarrow> (\<exists>a b. s = a @ p @ b)"
proof (induction s)
  case Nil
  then show ?case by auto
next
  case (Cons c cs)
  show ?case
  proof
    assume "str_includes (c # cs) p"
    then consider "startsWith (c # cs) p" | "str_includes cs p" by auto
    then show "\<exists>a b. c # cs = a @ p @ b"
    proof cases
      case 1
      then obtain b where "c # cs = p @ b" using startsWith_iff by blast
      then have "c # cs = [] @ p @ b" by simp
      then show ?thesis by blast
    next
      case 2
      then obtain a b where "cs = a @ p @ b" using Cons.IH by blast
      then have "c # cs = (c # a) @ p @ b" by simp
      then show ?thesis by blast
    qed
  next
    assume "\<exists>a b. c # cs = a @ p @ b"
    then obtain a b where ab: "c # cs = a @ p @ b" by blast
    show "str_includes (c # cs) p"
    proof (cases a)
      case Nil
      with ab have "startsWith (c # cs) p" using startsWith_iff by auto
      then show ?thesis by simp
    next
      case (Cons x a')
      with ab have "cs = a' @ p @ b" by simp
      then have "str_includes cs p" using Cons.IH by blast
      then show ?thesis by simp
    qed
  qed
qed

lemma js_split_not_Nil: "js_split sep s \<noteq> []"
  by (induction s) (auto split: list.splits)

lemma js_split_hd: "hd (js_split sep s) = takeWhile (\<lambda>c. c \<noteq> sep) s"
  by (induction s) (auto simp: js_split_not_Nil split: list.splits)

lemma js_split_tl:
  "sep \<in> set s \<Longrightarrow> tl (js_split sep s) = js_split sep (drop 1 (dropWhile (\<lambda>c. c \<noteq> sep) s))"
  by (induction s) (auto split: list.splits)

lemma js_split_length: "sep \<in> set s \<Longrightarrow> 2 \<le> length (js_split sep s)"
proof (induction s)
  case Nil
  then show ?case by simp
next
  case (Cons c cs)
  then show ?case using js_split_not_Nil[of sep cs]
    by (cases "js_split sep cs") (auto split: list.splits)
qed

lemma base64Data_eq:
  assumes "CHR '','' \<in> set img"
  shows "base64Data img = Some (takeWhile (\<lambda>c. c \<noteq> CHR '','') (after_first_comma img))"
proof -
  let ?xs = "js_split CHR '','' img"
  have len: "1 < length ?xs" using js_split_length[OF assms] by simp
  have "?xs ! 1 = hd (tl ?xs)"
    using len by (cases ?xs; cases "tl ?xs") auto
  also have "\<dots> = takeWhile (\<lambda>c. c \<noteq> CHR '','') (after_first_comma img)"
    using js_split_tl[OF assms] js_split_hd by (simp add: after_first_comma_def)
  finally show ?thesis using len by (simp add: base64Data_def nth_opt_def)
qed

lemma getStatusColor_str:
  "getStatusColor (JStr t) ty =
     Inr (if str_includes (toLowerCase t) ''well'' then
            (if ty = None \<or> ty = Some ''bg'' then ''bg-emerald-500'' else ''text-emerald-600'')
          else if str_includes (toLowerCase t) ''mild'' then
            (if ty = None \<or> ty = Some ''bg'' then ''bg-amber-500'' else ''text-amber-600'')
          else (if ty = None \<or> ty = Some ''bg'' then ''bg-rose-500'' else ''text-rose-600''))"
  by (cases ty) (simp_all add: getStatusColor_def bind_err_def)

lemma lower_well_hydrated: "toLowerCase ''Well Hydrated'' = ''well hydrated''"
  by (simp add: toLowerCase_def lower_char_def)

lemma show_int_82: "show_int 82 = ''82''"
  by code_simp


lemma base64_no_comma:
  assumes "list_all base64_char b"
  shows "CHR '','' \<notin> set b"
proof
  assume "CHR '','' \<in> set b"
  with assms have "base64_char CHR '',''" unfolding list_all_iff by (rule bspec)
  then show False by (simp add: base64_char_def)
qed

lemma after_first_comma_append:
  "CHR '','' \<notin> set p \<Longrightarrow> after_first_comma (p @ CHR '','' # b) = b"
proof (induction p)
  case Nil
  then show ?case by (simp add: after_first_comma_def)
next
  case (Cons a p)
  then have "a \<noteq> CHR '',''" and "CHR '','' \<notin> set p" by auto
  with Cons.IH show ?case by (simp add: after_first_comma_def)
qed

section \<open>Runs: what every step preserves\<close>

lemmas handler_defs =
  startCamera_begin_def startCamera_resolved_def startCamera_rejected_def capturePhoto_def
  stopCamera_def handleImageUpload_def reader_onload_def analyzeLips_call_def
  analyzeLips_settled_def retake_def tryAgain_def triggerFileInput_def commit_def

lemma analyzeLips_begin_eq:
  "analyzeLips_begin apiKey s =
     (if \<not> has_image s then s
      else s\<lparr> isAnalyzing := True, error := '''',
              requests := requests s @ [build_request apiKey (the (image_v s))],
              pendingFetch := pendingFetch s + 1 \<rparr>)"
  by (simp add: analyzeLips_begin_def analyzeLips_call_def truthy_image_def has_image_def)

lemma shown_up_to_date: "up_to_date s \<Longrightarrow> shown s = s"
  by (simp add: up_to_date_def shown_def view_of_def)

lemma up_to_date_commit: "up_to_date (commit s)"
  by (simp add: up_to_date_def commit_def view_of_def)

lemma closure_image: "up_to_date s \<Longrightarrow> r_image (rendered s) = image_v s"
  by (simp add: up_to_date_def view_of_def)

text \<open>Every Analyze click that the page accepts sends a request: the preview panel of the
  render on screen has an image in its closure.\<close>

lemma step_requests:
  assumes "step jsonParse apiKey ev s = Some s'"
  shows "length (requests s') = length (requests s) + (if ev = ClickAnalyze then 1 else 0)"
proof (cases ev)
  case ClickAnalyze
  with assms have "preview_panel (shown s)" by (simp add: step_def split: if_splits)
  then have "truthy_image (r_image (rendered s))"
    by (simp add: preview_panel_def has_image_def shown_def truthy_image_def)
  with assms ClickAnalyze show ?thesis
    by (auto simp: step_def analyzeLips_call_def split: if_splits)
next
  case (ChooseFile f)
  with assms show ?thesis
    by (auto simp: step_def handleImageUpload_def split: if_splits option.splits)
next
  case (FetchSettled outcome)
  with assms show ?thesis
    by (auto simp: step_def analyzeLips_settled_def split: if_splits sum.splits)
next
  case (ClickCapture shot)
  with assms show ?thesis
    by (auto simp: step_def capturePhoto_def stopCamera_def split: if_splits option.splits)
qed (use assms in \<open>auto simp: step_def handler_defs split: if_splits\<close>)

lemma run_requests:
  "run jsonParse apiKey evs s = Some s' \<Longrightarrow>
   length (requests s') = length (requests s) + count_list evs ClickAnalyze"
proof (induction evs arbitrary: s)
  case Nil
  then show ?case by simp
next
  case (Cons ev evs)
  from Cons.prems obtain s1 where s1: "step jsonParse apiKey ev s = Some s1"
    and rest: "run jsonParse apiKey evs s1 = Some s'"
    by (cases "step jsonParse apiKey ev s") simp_all
  from step_requests[OF s1] Cons.IH[OF rest] show ?case by simp
qed

lemma count_with_renders: "count_list (with_renders evs) ClickAnalyze = count_list evs ClickAnalyze"
  by (induction evs) simp_all

text \<open>Runs in which React renders after each event: what an event and the render after
  it preserve is kept by the whole run.\<close>

lemma run_with_renders_invariant:
  assumes step: "\<And>ev s s1. I s \<Longrightarrow> up_to_date s \<Longrightarrow> step jsonParse apiKey ev s = Some s1
                    \<Longrightarrow> I (commit s1)"
  shows "I s \<Longrightarrow> up_to_date s \<Longrightarrow> run jsonParse apiKey (with_renders evs) s = Some s'
         \<Longrightarrow> I s' \<and> up_to_date s'"
proof (induction evs arbitrary: s)
  case Nil
  then show ?case by simp
next
  case (Cons ev evs)
  from Cons.prems(3) obtain s1 where s1: "step jsonParse apiKey ev s = Some s1"
    and rest: "run jsonParse apiKey (with_renders evs) (commit s1) = Some s'"
    by (cases "step jsonParse apiKey ev s") (simp_all add: step_def)
  from step[OF Cons.prems(1,2) s1] up_to_date_commit rest show ?case
    by (rule Cons.IH)
qed

lemma step_fetch_inv:
  assumes inv: "fetch_inv s" and fresh: "up_to_date s"
    and st: "step jsonParse apiKey ev s = Some s1"
  shows "fetch_inv (commit s1)"
proof -
  from st have en: "enabled ev s" and s1: "s1 = handle jsonParse apiKey ev s"
    by (simp_all add: step_def split: if_splits)
  have c: "fetch_inv (commit x) = fetch_inv x" for x
    by (simp add: fetch_inv_def commit_def)
  show ?thesis
  proof (cases ev)
    case ClickAnalyze
    with en fresh have "preview_panel s" by (simp add: shown_up_to_date)
    then have "\<not> isAnalyzing s" by (simp add: preview_panel_def)
    with inv show ?thesis unfolding c s1 ClickAnalyze
      by (simp add: fetch_inv_def analyzeLips_call_def)
  next
    case (FetchSettled outcome)
    with en have "0 < pendingFetch s" by simp
    with inv show ?thesis unfolding c s1 FetchSettled
      by (simp add: fetch_inv_def analyzeLips_settled_def split: if_splits sum.splits)
  next
    case (ChooseFile f)
    with inv show ?thesis unfolding c s1
      by (simp add: fetch_inv_def handleImageUpload_def split: option.splits)
  next
    case (ClickCapture shot)
    with inv show ?thesis unfolding c s1
      by (simp add: fetch_inv_def capturePhoto_def stopCamera_def split: option.splits)
  qed (use inv in \<open>simp_all add: c s1 fetch_inv_def handler_defs\<close>)
qed

lemma camera_invI:
  assumes "pendingCamera s \<le> 1"
    and "0 < pendingCamera s \<Longrightarrow> streamRef s = None"
    and "(streamRef s = None) = (\<not> isCameraActive s)"
    and "videoRef s = isCameraActive s"
    and "\<And>h. streamRef s = Some h \<Longrightarrow> h < length (streams s)"
    and "\<And>h. h < length (streams s) \<Longrightarrow> session_open s h \<Longrightarrow> streamRef s = Some h"
  shows "camera_inv s"
  unfolding camera_inv_def using assms by blast

lemma camera_invD:
  assumes "camera_inv s"
  shows "pendingCamera s \<le> 1"
    and "0 < pendingCamera s \<Longrightarrow> streamRef s = None"
    and "(streamRef s = None) = (\<not> isCameraActive s)"
    and "videoRef s = isCameraActive s"
    and "\<And>h. streamRef s = Some h \<Longrightarrow> h < length (streams s)"
    and "\<And>h. h < length (streams s) \<Longrightarrow> session_open s h \<Longrightarrow> streamRef s = Some h"
  using assms unfolding camera_inv_def by blast+

lemma camera_inv_frame:
  assumes "camera_inv s"
    and "pendingCamera s' = pendingCamera s" and "streamRef s' = streamRef s"
    and "isCameraActive s' = isCameraActive s" and "streams s' = streams s"
  shows "camera_inv (commit s')"
proof -
  have so: "session_open (commit s') = session_open s"
    using assms(5) by (simp add: session_open_def commit_def fun_eq_iff)
  have f: "pendingCamera (commit s') = pendingCamera s" "streamRef (commit s') = streamRef s"
    "isCameraActive (commit s') = isCameraActive s" "streams (commit s') = streams s"
    "videoRef (commit s') = isCameraActive s"
    using assms(2-5) by (simp_all add: commit_def)
  show ?thesis
    unfolding camera_inv_def so f
    using assms(1) unfolding camera_inv_def by blast
qed


lemma begin_camera_inv:
  assumes inv: "camera_inv s" and idle: "idle_panel s" and none: "pendingCamera s = 0"
  shows "camera_inv (commit (startCamera_begin s))"
proof -
  let ?s' = "commit (startCamera_begin s)"
  have f: "pendingCamera ?s' = 1" "streamRef ?s' = streamRef s"
    "isCameraActive ?s' = isCameraActive s" "streams ?s' = streams s"
    "videoRef ?s' = isCameraActive s"
    using none by (simp_all add: commit_def startCamera_begin_def)
  have so: "session_open ?s' = session_open s"
    by (simp add: session_open_def f fun_eq_iff)
  have off: "streamRef s = None"
    using camera_invD(3)[OF inv] idle by (simp add: idle_panel_def)
  show ?thesis
  proof (rule camera_invI)
    show "pendingCamera ?s' \<le> 1" by (simp add: f)
    show "streamRef ?s' = None" by (simp add: f off)
    show "(streamRef ?s' = None) = (\<not> isCameraActive ?s')"
      using camera_invD(3)[OF inv] by (simp add: f)
    show "videoRef ?s' = isCameraActive ?s'" by (simp add: f)
    show "\<And>h. streamRef ?s' = Some h \<Longrightarrow> h < length (streams ?s')"
      by (simp add: f off)
    show "\<And>h. h < length (streams ?s') \<Longrightarrow> session_open ?s' h \<Longrightarrow> streamRef ?s' = Some h"
      using camera_invD(6)[OF inv] by (simp add: f so)
  qed
qed

lemma rejected_camera_inv:
  assumes inv: "camera_inv s"
  shows "camera_inv (commit (startCamera_rejected s))"
proof -
  let ?s' = "commit (startCamera_rejected s)"
  have f: "pendingCamera ?s' = pendingCamera s - 1" "streamRef ?s' = streamRef s"
    "isCameraActive ?s' = isCameraActive s" "streams ?s' = streams s"
    "videoRef ?s' = isCameraActive s"
    by (simp_all add: commit_def startCamera_rejected_def)
  have so: "session_open ?s' = session_open s"
    by (simp add: session_open_def f fun_eq_iff)
  show ?thesis
  proof (rule camera_invI)
    show "pendingCamera ?s' \<le> 1" using camera_invD(1)[OF inv] by (simp add: f)
    show "0 < pendingCamera ?s' \<Longrightarrow> streamRef ?s' = None"
      using camera_invD(2)[OF inv] by (simp add: f)
    show "(streamRef ?s' = None) = (\<not> isCameraActive ?s')"
      using camera_invD(3)[OF inv] by (simp add: f)
    show "videoRef ?s' = isCameraActive ?s'" by (simp add: f)
    show "\<And>h. streamRef ?s' = Some h \<Longrightarrow> h < length (streams ?s')"
      using camera_invD(5)[OF inv] by (simp add: f)
    show "\<And>h. h < length (streams ?s') \<Longrightarrow> session_open ?s' h \<Longrightarrow> streamRef ?s' = Some h"
      using camera_invD(6)[OF inv] by (simp add: f so)
  qed
qed

lemma resolved_camera_inv:
  assumes inv: "camera_inv s" and pending: "0 < pendingCamera s"
  shows "camera_inv (commit (startCamera_resolved n s))"
proof -
  let ?s' = "commit (startCamera_resolved n s)"
  have f: "pendingCamera ?s' = pendingCamera s - 1" "streamRef ?s' = Some (length (streams s))"
    "isCameraActive ?s' = True" "streams ?s' = streams s @ [replicate n Live]"
    "videoRef ?s' = True"
    by (simp_all add: commit_def startCamera_resolved_def)
  have off: "streamRef s = None" using camera_invD(2)[OF inv pending] .
  show ?thesis
  proof (rule camera_invI)
    show "pendingCamera ?s' \<le> 1" using camera_invD(1)[OF inv] by (simp add: f)
    show "0 < pendingCamera ?s' \<Longrightarrow> streamRef ?s' = None"
      using camera_invD(1)[OF inv] by (simp add: f)
    show "(streamRef ?s' = None) = (\<not> isCameraActive ?s')" by (simp add: f)
    show "videoRef ?s' = isCameraActive ?s'" by (simp add: f)
    show "\<And>h. streamRef ?s' = Some h \<Longrightarrow> h < length (streams ?s')" by (simp add: f)
  next
    fix h
    assume h: "h < length (streams ?s')" and op: "session_open ?s' h"
    have "h = length (streams s)"
    proof (rule ccontr)
      assume "h \<noteq> length (streams s)"
      with h have lt: "h < length (streams s)" by (simp add: f)
      then have "streams ?s' ! h = streams s ! h" by (simp add: f nth_append)
      with op have "session_open s h" by (simp add: session_open_def)
      from camera_invD(6)[OF inv lt this] off show False by simp
    qed
    then show "streamRef ?s' = Some h" by (simp add: f)
  qed
qed

lemma capture_camera_inv:
  assumes inv: "camera_inv s"
  shows "camera_inv (commit (capturePhoto shot s))"
proof (cases "videoRef s")
  case False
  then have "capturePhoto shot s = s" by (simp add: capturePhoto_def)
  then show ?thesis using camera_inv_frame[OF inv, of s] by simp
next
  case True
  then have "isCameraActive s" using camera_invD(4)[OF inv] by simp
  then obtain h0 where h0: "streamRef s = Some h0"
    using camera_invD(3)[OF inv] by (cases "streamRef s") auto
  let ?s' = "commit (capturePhoto shot s)"
  have f: "pendingCamera ?s' = pendingCamera s" "streamRef ?s' = None"
    "isCameraActive ?s' = False" "videoRef ?s' = False"
    "streams ?s' = (streams s)[h0 := map (\<lambda>t. Ended) (streams s ! h0)]"
    using True h0 by (simp_all add: commit_def capturePhoto_def stopCamera_def)
  have zero: "pendingCamera s = 0"
    using camera_invD(2)[OF inv] h0 by (cases "pendingCamera s") auto
  show ?thesis
  proof (rule camera_invI)
    show "pendingCamera ?s' \<le> 1" by (simp add: f zero)
    show "0 < pendingCamera ?s' \<Longrightarrow> streamRef ?s' = None" by (simp add: f)
    show "(streamRef ?s' = None) = (\<not> isCameraActive ?s')" by (simp add: f)
    show "videoRef ?s' = isCameraActive ?s'" by (simp add: f)
    show "\<And>h. streamRef ?s' = Some h \<Longrightarrow> h < length (streams ?s')" by (simp add: f)
  next
    fix h
    assume h: "h < length (streams ?s')" and op: "session_open ?s' h"
    from h have lt: "h < length (streams s)" by (simp add: f)
    have "h \<noteq> h0"
    proof
      assume "h = h0"
      with lt have "streams ?s' ! h = map (\<lambda>t. Ended) (streams s ! h0)" by (simp add: f)
      with op show False by (auto simp: session_open_def)
    qed
    then have "streams ?s' ! h = streams s ! h" by (simp add: f)
    with op have "session_open s h" by (simp add: session_open_def)
    from camera_invD(6)[OF inv lt this] h0 \<open>h \<noteq> h0\<close> have False by simp
    then show "streamRef ?s' = Some h" ..
  qed
qed


lemma step_camera_inv:
  assumes inv: "camera_inv s" and fresh: "up_to_date s"
    and st: "step jsonParse apiKey ev s = Some s1"
    and ok: "case ev of ClickCamera \<Rightarrow> pendingCamera s = 0 | _ \<Rightarrow> True"
  shows "camera_inv (commit s1)"
proof -
  from st have en: "enabled ev s" and s1: "s1 = handle jsonParse apiKey ev s"
    by (simp_all add: step_def split: if_splits)
  show ?thesis
  proof (cases ev)
    case ClickCamera
    with en fresh have "idle_panel s" by (simp add: shown_up_to_date)
    with ClickCamera ok inv show ?thesis unfolding s1 by (simp add: begin_camera_inv)
  next
    case ClickUpload
    show ?thesis unfolding s1 ClickUpload handle.simps
      by (rule camera_inv_frame[OF inv]) (simp_all add: triggerFileInput_def)
  next
    case (CameraResolved n)
    with en inv show ?thesis unfolding s1 by (simp add: resolved_camera_inv)
  next
    case CameraRejected
    with inv show ?thesis unfolding s1 by (simp add: rejected_camera_inv)
  next
    case (ClickCapture shot)
    with inv show ?thesis unfolding s1 by (simp add: capture_camera_inv)
  next
    case (ChooseFile f)
    show ?thesis unfolding s1 ChooseFile handle.simps
      by (rule camera_inv_frame[OF inv])
         (simp_all add: handleImageUpload_def split: option.splits)
  next
    case (ReaderLoaded res)
    show ?thesis unfolding s1 ReaderLoaded handle.simps
      by (rule camera_inv_frame[OF inv]) (simp_all add: reader_onload_def)
  next
    case ClickAnalyze
    show ?thesis unfolding s1 ClickAnalyze handle.simps
      by (rule camera_inv_frame[OF inv]) (simp_all add: analyzeLips_call_def)
  next
    case (FetchSettled outcome)
    show ?thesis unfolding s1 FetchSettled handle.simps
      by (rule camera_inv_frame[OF inv])
         (simp_all add: analyzeLips_settled_def split: sum.splits)
  next
    case ClickRetake
    show ?thesis unfolding s1 ClickRetake handle.simps
      by (rule camera_inv_frame[OF inv]) (simp_all add: retake_def)
  next
    case ClickTryAgain
    show ?thesis unfolding s1 ClickTryAgain handle.simps
      by (rule camera_inv_frame[OF inv]) (simp_all add: tryAgain_def)
  next
    case Render
    show ?thesis unfolding s1 Render handle.simps
      by (rule camera_inv_frame[OF inv]) (simp_all add: commit_def)
  qed
qed

lemma run_camera_inv:
  "camera_inv s \<Longrightarrow> up_to_date s \<Longrightarrow>
   run jsonParse apiKey (with_renders evs) s = Some s' \<Longrightarrow>
   no_overlapping_start jsonParse apiKey evs s \<Longrightarrow> camera_inv s'"
proof (induction evs arbitrary: s)
  case Nil
  then show ?case by simp
next
  case (Cons ev evs)
  from Cons.prems(3) obtain s1 where s1: "step jsonParse apiKey ev s = Some s1"
    and rest: "run jsonParse apiKey (with_renders evs) (commit s1) = Some s'"
    by (cases "step jsonParse apiKey ev s") (simp_all add: step_def)
  from Cons.prems(4) s1 have ok: "case ev of ClickCamera \<Rightarrow> pendingCamera s = 0 | _ \<Rightarrow> True"
    and later: "no_overlapping_start jsonParse apiKey evs (commit s1)"
    by simp_all
  from step_camera_inv[OF Cons.prems(1,2) s1 ok] up_to_date_commit rest later
  show ?case by (rule Cons.IH)
qed

lemma open_sessions_le_1:
  assumes inv: "camera_inv s"
  shows "length (open_sessions s) \<le> 1"
proof -
  have d: "distinct (open_sessions s)" by (simp add: open_sessions_def)
  have sub: "set (open_sessions s) \<subseteq> {the (streamRef s)}"
  proof
    fix h assume "h \<in> set (open_sessions s)"
    then have "h < length (streams s)" and "session_open s h"
      by (simp_all add: open_sessions_def)
    from camera_invD(6)[OF inv this] show "h \<in> {the (streamRef s)}" by simp
  qed
  have "card (set (open_sessions s)) \<le> card {the (streamRef s)}"
    by (rule card_mono[OF _ sub]) simp
  then show ?thesis using distinct_card[OF d] by simp
qed

lemma capture_closes:
  assumes inv: "camera_inv s" and cam: "camera_panel s"
  shows "open_sessions (capturePhoto shot s) = []
       \<and> streamRef (capturePhoto shot s) = None
       \<and> \<not> isCameraActive (capturePhoto shot s)
       \<and> image_v (capturePhoto shot s) = Some shot"
proof -
  from cam have act: "isCameraActive s" by (simp add: camera_panel_def)
  then have v: "videoRef s" using camera_invD(4)[OF inv] by simp
  from act obtain h0 where h0: "streamRef s = Some h0"
    using camera_invD(3)[OF inv] by (cases "streamRef s") auto
  let ?s' = "capturePhoto shot s"
  have f: "streamRef ?s' = None" "isCameraActive ?s' = False" "image_v ?s' = Some shot"
    "streams ?s' = (streams s)[h0 := map (\<lambda>t. Ended) (streams s ! h0)]"
    using v h0 by (simp_all add: capturePhoto_def stopCamera_def)
  have "\<not> session_open ?s' h" if h: "h < length (streams ?s')" for h
  proof (cases "h = h0")
    case True
    with h have "streams ?s' ! h = map (\<lambda>t. Ended) (streams s ! h0)" by (simp add: f)
    then show ?thesis by (auto simp: session_open_def)
  next
    case False
    then have same: "streams ?s' ! h = streams s ! h" by (simp add: f)
    from h have lt: "h < length (streams s)" by (simp add: f)
    show ?thesis
    proof
      assume "session_open ?s' h"
      with same have "session_open s h" by (simp add: session_open_def)
      from camera_invD(6)[OF inv lt this] h0 False show False by simp
    qed
  qed
  then have "open_sessions ?s' = []"
    by (simp add: open_sessions_def filter_empty_conv)
  then show ?thesis by (simp add: f)
qed

section \<open>Try Again\<close>

text \<open>
  C1, as the code has it. The Try Again button runs \<^verbatim>\<open>setResults(null)\<close> and nothing
  else: from a state that shows a result for an image, with no analysis running, it clears
  the result and keeps the image, so the preview panel (ImageReady) is shown and the Idle
  panel is not. The image goes only with the Retake button that the preview panel offers,
  and that step shows the Idle panel when the camera is off.
\<close>

theorem try_again_keeps_image:
  assumes "results_panel s" and "has_image s" and "\<not> isAnalyzing s"
  shows "tryAgain s = s\<lparr> results := JNull \<rparr>
       \<and> image_v (tryAgain s) = image_v s
       \<and> \<not> results_panel (tryAgain s)
       \<and> preview_panel (tryAgain s)
       \<and> \<not> idle_panel (tryAgain s)
       \<and> image_v (retake (tryAgain s)) = None
       \<and> results (retake (tryAgain s)) = JNull
       \<and> idle_panel (retake (tryAgain s)) = (\<not> isCameraActive s)"
  using assms
  by (simp add: tryAgain_def retake_def results_panel_def preview_panel_def idle_panel_def
      has_image_def)

theorem try_again_keeps_image_witness:
  "results_panel (init\<lparr> image_v := Some ''data:image/png;base64,AAAA'', results := JObj [] \<rparr>)
   \<and> preview_panel (tryAgain (init\<lparr> image_v := Some ''data:image/png;base64,AAAA'', results := JObj [] \<rparr>))
   \<and> \<not> idle_panel (tryAgain (init\<lparr> image_v := Some ''data:image/png;base64,AAAA'', results := JObj [] \<rparr>))
   \<and> idle_panel (retake (tryAgain (init\<lparr> image_v := Some ''data:image/png;base64,AAAA'', results := JObj [] \<rparr>)))"
  using try_again_keeps_image
    [of "init\<lparr> image_v := Some ''data:image/png;base64,AAAA'', results := JObj [] \<rparr>"]
  by (simp add: results_panel_def has_image_def init_def tryAgain_def retake_def
      preview_panel_def idle_panel_def)

text \<open>
  C1 as stated fails after an upload and a successful analysis: the result is shown, Try
  Again can be pressed, and after it the image is still there and the Idle panel is not
  shown.
\<close>

theorem try_again_counterexample:
  "(case run (\<lambda>t. Some (JObj [(''overallStatus'', JStr ''Well Hydrated''),
                               (''dehydrationScore'', JNum 82)])) ''''
          (with_renders
            [ClickUpload,
             ChooseFile (Some \<lparr>ftype = ''image/png''\<rparr>),
             ReaderLoaded ''data:image/png;base64,AAAA'',
             ClickAnalyze,
             FetchSettled (BodyJson (JObj [(''candidates'', JArr [JObj [(''content'',
                JObj [(''parts'', JArr [JObj [(''text'', JStr ''{}'')]])])]])]))]) init of
      None \<Rightarrow> False
    | Some s \<Rightarrow> results_panel s \<and> enabled ClickTryAgain s
               \<and> image_v (tryAgain s) = Some ''data:image/png;base64,AAAA''
               \<and> \<not> idle_panel (tryAgain s))"
  by code_simp

section \<open>One analysis at a time\<close>

text \<open>
  C2, as the code has it. The only guard of \<^verbatim>\<open>analyzeLips\<close> is the missing image:
  without an image it changes nothing, with one it sends a request whatever
  \<^verbatim>\<open>isAnalyzing\<close> is. What keeps a second call away is the rendering: the Analyze button
  is part of the preview panel, and no render of a state with \<^verbatim>\<open>isAnalyzing\<close> set has it.
  So along every run from the start in which React renders after each event, a request is
  outstanding exactly while \<^verbatim>\<open>isAnalyzing\<close> is set and then it is the only one, the
  Analyze click cannot happen in such a state, and the requests sent are as many as the
  Analyze clicks of the run.
\<close>

theorem one_outstanding_analysis:
  assumes "run jsonParse apiKey (with_renders evs) init = Some s"
  shows "pendingFetch s = (if isAnalyzing s then 1 else 0)
       \<and> length (requests s) = count_list evs ClickAnalyze
       \<and> (isAnalyzing s \<longrightarrow> \<not> enabled ClickAnalyze s \<and> step jsonParse apiKey ClickAnalyze s = None)
       \<and> (isAnalyzing x \<longrightarrow> \<not> preview_panel x \<and> \<not> enabled ClickAnalyze (commit x))
       \<and> (\<not> has_image x \<longrightarrow> analyzeLips_begin apiKey x = x)
       \<and> (has_image x \<longrightarrow>
            requests (analyzeLips_begin apiKey x) =
              requests x @ [build_request apiKey (the (image_v x))])"
proof -
  have i: "fetch_inv init" by (simp add: fetch_inv_def init_def)
  have u: "up_to_date init" by (simp add: up_to_date_def init_def view_of_def)
  from run_with_renders_invariant[of fetch_inv jsonParse apiKey init evs s,
      OF step_fetch_inv i u assms]
  have inv: "fetch_inv s" and fresh: "up_to_date s" by simp_all
  from inv have a: "pendingFetch s = (if isAnalyzing s then 1 else 0)"
    by (simp add: fetch_inv_def)
  have b: "length (requests s) = count_list evs ClickAnalyze"
    using run_requests[OF assms] by (simp add: init_def count_with_renders)
  have c: "isAnalyzing s \<longrightarrow> \<not> enabled ClickAnalyze s \<and> step jsonParse apiKey ClickAnalyze s = None"
    using fresh by (simp add: step_def shown_up_to_date preview_panel_def)
  have d: "isAnalyzing x \<longrightarrow> \<not> preview_panel x \<and> \<not> enabled ClickAnalyze (commit x)"
    using shown_up_to_date[OF up_to_date_commit, of x]
    by (simp add: preview_panel_def commit_def)
  show ?thesis using a b c d by (simp add: analyzeLips_begin_eq)
qed

text \<open>The theorem of C2 after an upload and one Analyze click: one request is outstanding,
  one was sent, and the click is not available.\<close>

theorem one_outstanding_analysis_witness:
  "(case run (\<lambda>t. None) '''' (with_renders [ClickUpload, ChooseFile (Some \<lparr>ftype = ''image/png''\<rparr>),
           ReaderLoaded ''data:image/png;base64,AAAA'', ClickAnalyze]) init of
      None \<Rightarrow> False
    | Some s \<Rightarrow> isAnalyzing s \<and> pendingFetch s = 1 \<and> length (requests s) = 1
               \<and> step (\<lambda>t. None) '''' ClickAnalyze s = None)"
proof -
  let ?evs = "[ClickUpload, ChooseFile (Some \<lparr>ftype = ''image/png''\<rparr>),
           ReaderLoaded ''data:image/png;base64,AAAA'', ClickAnalyze]"
  have "case run (\<lambda>t. None) '''' (with_renders ?evs) init of
          None \<Rightarrow> False | Some s \<Rightarrow> isAnalyzing s"
    by code_simp
  then obtain s where r: "run (\<lambda>t. None) '''' (with_renders ?evs) init = Some s"
    and a: "isAnalyzing s"
    by (cases "run (\<lambda>t. None) '''' (with_renders ?evs) init") simp_all
  have c: "count_list ?evs ClickAnalyze = 1" by simp
  from one_outstanding_analysis[OF r] a c
  have "pendingFetch s = 1 \<and> length (requests s) = 1
      \<and> step (\<lambda>t. None) '''' ClickAnalyze s = None"
    by simp
  with a show ?thesis unfolding r by simp
qed

text \<open>C2 as stated fails for the handler: called in a state where the first call is
  outstanding, \<^verbatim>\<open>analyzeLips\<close> sends a second request.\<close>

theorem second_analyze_counterexample:
  "(case run (\<lambda>t. None) '''' (with_renders [ClickUpload, ChooseFile (Some \<lparr>ftype = ''image/png''\<rparr>),
           ReaderLoaded ''data:image/png;base64,AAAA'', ClickAnalyze]) init of
      None \<Rightarrow> False
    | Some s \<Rightarrow> isAnalyzing s \<and> length (requests s) = 1
               \<and> length (requests (analyzeLips_begin '''' s)) = 2
               \<and> pendingFetch (analyzeLips_begin '''' s) = 2)"
  by code_simp

text \<open>The page admits that call only before it has rendered again: two Analyze clicks
  dispatched on the same render both run the handler.\<close>

lemma analyze_clicks_on_one_render:
  "map_option (\<lambda>s. (length (requests s), pendingFetch s))
     (run (\<lambda>t. None) '''' [ClickUpload, ChooseFile (Some \<lparr>ftype = ''image/png''\<rparr>),
           ReaderLoaded ''data:image/png;base64,AAAA'', Render, ClickAnalyze, ClickAnalyze] init)
   = Some (2, 2)
   \<and> run (\<lambda>t. None) '''' [ClickUpload, ChooseFile (Some \<lparr>ftype = ''image/png''\<rparr>),
           ReaderLoaded ''data:image/png;base64,AAAA'', Render, ClickAnalyze, Render,
           ClickAnalyze] init = None"
  by code_simp

section \<open>Upload of a file that is not an image\<close>

text \<open>
  C3. For a file whose declared type does not start with \<^verbatim>\<open>image/\<close> the upload handler
  sets the invalid-file message and changes nothing else: the image is as it was, no read
  of the file is started, and the Idle panel is shown after it exactly if it was before.
  Whatever the state the file arrives in, that is the whole step.
\<close>

theorem upload_rejects_non_image:
  assumes "\<not> startsWith (ftype f) ''image/''"
  shows "handleImageUpload (Some f) s = s\<lparr> error := invalid_file_msg \<rparr>
       \<and> error_banner (handleImageUpload (Some f) s)
       \<and> image_v (handleImageUpload (Some f) s) = image_v s
       \<and> pendingReads (handleImageUpload (Some f) s) = pendingReads s
       \<and> idle_panel (handleImageUpload (Some f) s) = idle_panel s
       \<and> step jsonParse apiKey (ChooseFile (Some f)) s = Some (s\<lparr> error := invalid_file_msg \<rparr>)"
  using assms
  by (simp add: handleImageUpload_def error_banner_def invalid_file_msg_def idle_panel_def
      has_image_def step_def)

theorem upload_rejects_non_image_witness:
  "\<not> startsWith (ftype \<lparr>ftype = ''application/pdf''\<rparr>) ''image/''
   \<and> handleImageUpload (Some \<lparr>ftype = ''application/pdf''\<rparr>) init =
       init\<lparr> error := ''Please upload a valid image file.'' \<rparr>
   \<and> idle_panel (handleImageUpload (Some \<lparr>ftype = ''application/pdf''\<rparr>) init)"
  using upload_rejects_non_image[of "\<lparr>ftype = ''application/pdf''\<rparr>" init]
  by (simp add: startsWith_def invalid_file_msg_def idle_panel_def has_image_def init_def)

section \<open>A new image and the old result\<close>

text \<open>
  C4 at a failing input. The upload path clears the result and the message when it stores
  the image; \<^verbatim>\<open>capturePhoto\<close> stores the image and stops the camera, and leaves both as
  they are. The run below asks for the camera, uploads and analyses a picture while the
  permission prompt is open, is then granted the camera and captures: the new image is
  stored and the result of the old one is still shown. The last three conjuncts put the
  two handlers side by side on one state.
\<close>

theorem capture_keeps_stale_result:
  "(case run (\<lambda>t. Some (JObj [(''overallStatus'', JStr ''Well Hydrated''),
                               (''dehydrationScore'', JNum 82)])) ''''
          (with_renders
            [ClickCamera,
             ClickUpload,
             ChooseFile (Some \<lparr>ftype = ''image/png''\<rparr>),
             ReaderLoaded ''data:image/png;base64,AAAA'',
             ClickAnalyze,
             FetchSettled (BodyJson (JObj [(''candidates'', JArr [JObj [(''content'',
                JObj [(''parts'', JArr [JObj [(''text'', JStr ''{}'')]])])]])])),
             CameraResolved 1,
             ClickCapture ''data:image/jpeg;base64,BBBB'']) init of
      None \<Rightarrow> False
    | Some s \<Rightarrow> image_v s = Some ''data:image/jpeg;base64,BBBB''
               \<and> results s = JObj [(''overallStatus'', JStr ''Well Hydrated''),
                                    (''dehydrationScore'', JNum 82)]
               \<and> results_panel s)
   \<and> results (reader_onload ''data:image/jpeg;base64,BBBB''
        (init\<lparr> results := JObj [], error := ''x'' \<rparr>)) = JNull
   \<and> results (capturePhoto ''data:image/jpeg;base64,BBBB''
        (init\<lparr> results := JObj [], error := ''x'', videoRef := True \<rparr>)) = JObj []
   \<and> error (capturePhoto ''data:image/jpeg;base64,BBBB''
        (init\<lparr> results := JObj [], error := ''x'', videoRef := True \<rparr>)) = ''x''"
  by code_simp

section \<open>The camera session\<close>

text \<open>
  C5 at a failing input. The Camera button stays rendered while a request for the camera
  is pending, and \<^verbatim>\<open>startCamera\<close> stores the stream it is given over whatever
  \<^verbatim>\<open>streamRef\<close> holds. Pressed twice before the prompt is answered, it opens two
  sessions (streams 0 and 1); the capture stops the tracks of the stream held last, and
  stream 0 keeps its live track.
\<close>

theorem double_start_leaks_session:
  "map_option open_sessions
     (run (\<lambda>t. None) ''''
        (with_renders [ClickCamera, ClickCamera, CameraResolved 1, CameraResolved 1]) init)
     = Some [0, 1]
   \<and> map_option open_sessions
     (run (\<lambda>t. None) ''''
        (with_renders [ClickCamera, ClickCamera, CameraResolved 1, CameraResolved 1,
           ClickCapture ''data:image/jpeg;base64,AAAA'']) init)
     = Some [0]"
  by code_simp

text \<open>
  What holds of the camera: along every run in which React renders after each event and
  the Camera button is not pressed while a request for the camera is pending, at most one session is open, and a capture
  from the camera panel leaves none open, clears the handle, turns the camera panel off
  and stores the image.
\<close>

lemma capture_releases_session:
  assumes "run jsonParse apiKey (with_renders evs) init = Some s"
    and "no_overlapping_start jsonParse apiKey evs init"
  shows "length (open_sessions s) \<le> 1
       \<and> (camera_panel s \<longrightarrow>
            open_sessions (capturePhoto shot s) = []
            \<and> streamRef (capturePhoto shot s) = None
            \<and> \<not> isCameraActive (capturePhoto shot s)
            \<and> image_v (capturePhoto shot s) = Some shot)"
proof -
  have i: "camera_inv init" by (simp add: camera_inv_def init_def)
  have u: "up_to_date init" by (simp add: up_to_date_def init_def view_of_def)
  from run_camera_inv[OF i u assms] have inv: "camera_inv s" .
  show ?thesis using open_sessions_le_1[OF inv] capture_closes[OF inv] by blast
qed

lemma capture_releases_session_example:
  "no_overlapping_start (\<lambda>t. None) '''' [ClickCamera, CameraResolved 1] init
   \<and> (case run (\<lambda>t. None) '''' (with_renders [ClickCamera, CameraResolved 1]) init of
        None \<Rightarrow> False
      | Some s \<Rightarrow> camera_panel s \<and> length (open_sessions s) \<le> 1
                 \<and> open_sessions (capturePhoto ''data:image/jpeg;base64,AAAA'' s) = []
                 \<and> image_v (capturePhoto ''data:image/jpeg;base64,AAAA'' s)
                     = Some ''data:image/jpeg;base64,AAAA'')"
proof -
  let ?evs = "[ClickCamera, CameraResolved 1]"
  have n: "no_overlapping_start (\<lambda>t. None) '''' ?evs init" by code_simp
  have "case run (\<lambda>t. None) '''' (with_renders ?evs) init of
          None \<Rightarrow> False | Some s \<Rightarrow> camera_panel s"
    by code_simp
  then obtain s where r: "run (\<lambda>t. None) '''' (with_renders ?evs) init = Some s"
    and c: "camera_panel s"
    by (cases "run (\<lambda>t. None) '''' (with_renders ?evs) init") simp_all
  from capture_releases_session[OF r n, of "''data:image/jpeg;base64,AAAA''"] c
  have "length (open_sessions s) \<le> 1
      \<and> open_sessions (capturePhoto ''data:image/jpeg;base64,AAAA'' s) = []
      \<and> image_v (capturePhoto ''data:image/jpeg;base64,AAAA'' s)
           = Some ''data:image/jpeg;base64,AAAA''"
    by blast
  with n c show ?thesis unfolding r by simp
qed

section \<open>The payload of the request\<close>

text \<open>
  C6. For every image that capture or file-read produces, that is, a data-URI
  \<^verbatim>\<open>data:<type>;base64,<payload>\<close> with a media type free of commas and a payload in the
  base64 alphabet, \<^verbatim>\<open>analyzeLips\<close> sends one request whose data is the payload, which is
  everything after the first comma of the image; so it is for the \<^verbatim>\<open>data:,\<close> of a canvas
  without area, whose payload is empty.
\<close>

theorem payload_is_base64_text:
  assumes mime: "CHR '','' \<notin> set mime" and b64: "list_all base64_char payload"
    and img: "image_v s = Some (data_uri mime payload)"
  shows "requests (analyzeLips_begin apiKey s) =
           requests s @ [build_request apiKey (data_uri mime payload)]
       \<and> data (build_request apiKey (data_uri mime payload)) = Some payload
       \<and> after_first_comma (data_uri mime payload) = payload
       \<and> data (build_request apiKey (data_uri mime payload)) =
           Some (after_first_comma (data_uri mime payload))
       \<and> data (build_request apiKey ''data:,'') = Some (after_first_comma ''data:,'')"
proof -
  let ?img = "data_uri mime payload"
  have split: "?img = (''data:'' @ mime @ '';base64'') @ CHR '','' # payload"
    by (simp add: data_uri_def)
  have pre: "CHR '','' \<notin> set (''data:'' @ mime @ '';base64'')" using mime by simp
  have pay: "CHR '','' \<notin> set payload" by (rule base64_no_comma[OF b64])
  have comma: "CHR '','' \<in> set ?img" by (simp add: data_uri_def)
  have after: "after_first_comma ?img = payload"
    unfolding split by (rule after_first_comma_append[OF pre])
  have "takeWhile (\<lambda>c. c \<noteq> CHR '','') payload = payload"
    by (rule takeWhile_eq_all_conv[THEN iffD2]) (use pay in auto)
  with base64Data_eq[OF comma] after
  have d: "data (build_request apiKey ?img) = Some payload"
    by (simp add: build_request_def)
  have "?img \<noteq> []" by (simp add: data_uri_def)
  then have "has_image s" using img by (simp add: has_image_def)
  then have r: "requests (analyzeLips_begin apiKey s) = requests s @ [build_request apiKey ?img]"
    using img by (simp add: analyzeLips_begin_eq)
  have e: "data (build_request apiKey ''data:,'') = Some (after_first_comma ''data:,'')"
    by (simp add: build_request_def base64Data_def nth_opt_def after_first_comma_def)
  from r d after e show ?thesis by simp
qed

text \<open>The theorem of C6 at a captured JPEG.\<close>

theorem payload_is_base64_text_witness:
  "CHR '','' \<notin> set ''image/jpeg''
   \<and> list_all base64_char ''/9j/4AAQ''
   \<and> data_uri ''image/jpeg'' ''/9j/4AAQ'' = ''data:image/jpeg;base64,/9j/4AAQ''
   \<and> data (build_request ''k'' ''data:image/jpeg;base64,/9j/4AAQ'') = Some ''/9j/4AAQ''
   \<and> after_first_comma ''data:image/jpeg;base64,/9j/4AAQ'' = ''/9j/4AAQ''"
proof -
  let ?s = "init\<lparr> image_v := Some (data_uri ''image/jpeg'' ''/9j/4AAQ'') \<rparr>"
  have a: "CHR '','' \<notin> set ''image/jpeg''" by simp
  have b: "list_all base64_char ''/9j/4AAQ''" by (simp add: base64_char_def)
  have c: "image_v ?s = Some (data_uri ''image/jpeg'' ''/9j/4AAQ'')" by simp
  have u: "data_uri ''image/jpeg'' ''/9j/4AAQ'' = ''data:image/jpeg;base64,/9j/4AAQ''"
    by (simp add: data_uri_def)
  note th = payload_is_base64_text[of "''image/jpeg''" "''/9j/4AAQ''" ?s "''k''", OF a b c]
  note d = th[THEN conjunct2, THEN conjunct1]
  note e = th[THEN conjunct2, THEN conjunct2, THEN conjunct1]
  from a b u d e show ?thesis by simp
qed

section \<open>A failed analysis\<close>

text \<open>
  C7. When the request ends in a failure, that is, the fetch is rejected, the body is not
  JSON, the envelope has no \<^verbatim>\<open>candidates[0].content.parts[0].text\<close> to read, or that
  text does not parse (a missing credential shows up as one of these, the key being
  only a part of the URL), the continuation sets the one generic message and clears the
  analyzing flag, and nothing else changes: the image and the result are as they were and
  no request is sent again.
\<close>

theorem analysis_failure_reported:
  assumes "outcome = FetchRejected \<or> outcome = BodyNotJson
         \<or> (\<exists>d e. outcome = BodyJson d \<and> resultText d = Inl e)
         \<or> (\<exists>d t. outcome = BodyJson d \<and> resultText d = Inr t \<and> jsonParse t = None)"
  shows "analyzeLips_settled jsonParse outcome s =
           s\<lparr> error := analysis_failed_msg, isAnalyzing := False,
              pendingFetch := pendingFetch s - 1 \<rparr>
       \<and> error_banner (analyzeLips_settled jsonParse outcome s)
       \<and> \<not> isAnalyzing (analyzeLips_settled jsonParse outcome s)
       \<and> image_v (analyzeLips_settled jsonParse outcome s) = image_v s
       \<and> results (analyzeLips_settled jsonParse outcome s) = results s
       \<and> requests (analyzeLips_settled jsonParse outcome s) = requests s"
proof -
  from assms have "\<exists>e. try_block jsonParse outcome = Inl e"
    by (auto simp: try_block_def bind_err_def)
  then show ?thesis
    by (auto simp: analyzeLips_settled_def error_banner_def analysis_failed_msg_def)
qed

text \<open>The theorem of C7 at the error envelope of the API.\<close>

theorem analysis_failure_reported_witness:
  "resultText (JObj [(''error'', JObj [(''code'', JNum 400)])]) = Inl TypeError
   \<and> error (analyzeLips_settled (\<lambda>t. None)
        (BodyJson (JObj [(''error'', JObj [(''code'', JNum 400)])]))
        (init\<lparr> image_v := Some ''data:image/jpeg;base64,AAAA'', isAnalyzing := True,
              pendingFetch := 1 \<rparr>))
       = ''Analysis failed. Check your API key in Vercel settings.''
   \<and> image_v (analyzeLips_settled (\<lambda>t. None)
        (BodyJson (JObj [(''error'', JObj [(''code'', JNum 400)])]))
        (init\<lparr> image_v := Some ''data:image/jpeg;base64,AAAA'', isAnalyzing := True,
              pendingFetch := 1 \<rparr>))
       = Some ''data:image/jpeg;base64,AAAA''"
proof -
  let ?d = "JObj [(''error'', JObj [(''code'', JNum 400)])]"
  let ?s = "init\<lparr> image_v := Some ''data:image/jpeg;base64,AAAA'', isAnalyzing := True,
              pendingFetch := 1 \<rparr>"
  have p: "resultText ?d = Inl TypeError" by (simp add: resultText_def bind_err_def)
  then have h: "BodyJson ?d = FetchRejected \<or> BodyJson ?d = BodyNotJson
         \<or> (\<exists>d e. BodyJson ?d = BodyJson d \<and> resultText d = Inl e)
         \<or> (\<exists>d t. BodyJson ?d = BodyJson d \<and> resultText d = Inr t \<and> (\<lambda>t. None) t = None)"
    by blast
  note th = analysis_failure_reported[of "BodyJson ?d" "\<lambda>t. None" ?s, OF h]
  have "error (analyzeLips_settled (\<lambda>t. None) (BodyJson ?d) ?s) = analysis_failed_msg"
    by (subst th[THEN conjunct1]) simp
  moreover have "image_v (analyzeLips_settled (\<lambda>t. None) (BodyJson ?d) ?s) = image_v ?s"
    using th by blast
  ultimately show ?thesis using p by (simp add: analysis_failed_msg_def)
qed

section \<open>A missing API key\<close>

text \<open>
  C8. \<^verbatim>\<open>getApiKey\<close> returns a string whatever the read of the environment does: the empty
  string when the read throws, when there is no environment object, when the variable is
  not set or is empty, and the value otherwise. With the empty key an analysis of an image
  still sends its request, to the endpoint with nothing after \<^verbatim>\<open>key=\<close>; when the request
  is rejected, or answered by something that is not JSON or by an object without
  \<^verbatim>\<open>candidates\<close> (the error reply of the API), the component ends with the generic
  message, not analyzing, and otherwise as it was but for the logged request: the exception
  is caught.
\<close>

theorem missing_key_fails_at_call_time:
  assumes env: "env = EnvThrows \<or> env = EnvUndefined \<or> env = VarUndefined \<or> env = VarValue ''''"
    and img: "has_image s"
    and reply: "outcome = FetchRejected \<or> outcome = BodyNotJson
              \<or> (\<exists>kvs. outcome = BodyJson (JObj kvs) \<and> map_of kvs ''candidates'' = None)"
  shows "getApiKey env = ''''
       \<and> getApiKey (VarValue key) = key
       \<and> url (last (requests (analyzeLips_begin (getApiKey env) s))) = endpoint
       \<and> analyzeLips_settled jsonParse outcome (analyzeLips_begin (getApiKey env) s) =
           s\<lparr> isAnalyzing := False, error := analysis_failed_msg,
              requests := requests s @ [build_request '''' (the (image_v s))] \<rparr>"
proof -
  from env have k: "getApiKey env = ''''" by auto
  have k2: "getApiKey (VarValue key) = key" by simp
  have u: "url (last (requests (analyzeLips_begin '''' s))) = endpoint"
    using img by (simp add: analyzeLips_begin_eq build_request_def)
  from reply have "\<exists>e. try_block jsonParse outcome = Inl e"
    by (auto simp: try_block_def resultText_def bind_err_def)
  then have "analyzeLips_settled jsonParse outcome (analyzeLips_begin '''' s) =
           s\<lparr> isAnalyzing := False, error := analysis_failed_msg,
              requests := requests s @ [build_request '''' (the (image_v s))] \<rparr>"
    using img by (auto simp: analyzeLips_settled_def analyzeLips_begin_eq)
  with k k2 u show ?thesis by simp
qed

text \<open>The theorem of C8 with the variable not set and the error reply of the API.\<close>

theorem missing_key_fails_at_call_time_witness:
  "getApiKey VarUndefined = ''''
   \<and> has_image (init\<lparr> image_v := Some ''data:image/jpeg;base64,AAAA'' \<rparr>)
   \<and> error (analyzeLips_settled (\<lambda>t. None)
        (BodyJson (JObj [(''error'', JObj [(''code'', JNum 400)])]))
        (analyzeLips_begin (getApiKey VarUndefined)
           (init\<lparr> image_v := Some ''data:image/jpeg;base64,AAAA'' \<rparr>)))
       = ''Analysis failed. Check your API key in Vercel settings.''"
proof -
  let ?s = "init\<lparr> image_v := Some ''data:image/jpeg;base64,AAAA'' \<rparr>"
  let ?o = "BodyJson (JObj [(''error'', JObj [(''code'', JNum 400)])])"
  have e: "VarUndefined = EnvThrows \<or> VarUndefined = EnvUndefined \<or> VarUndefined = VarUndefined
         \<or> VarUndefined = VarValue ''''" by simp
  have i: "has_image ?s" by (simp add: has_image_def)
  have "map_of [(''error'', JObj [(''code'', JNum 400)])] ''candidates'' = None" by simp
  then have r: "?o = FetchRejected \<or> ?o = BodyNotJson
              \<or> (\<exists>kvs. ?o = BodyJson (JObj kvs) \<and> map_of kvs ''candidates'' = None)"
    by blast
  note th = missing_key_fails_at_call_time[of VarUndefined ?s ?o _ "\<lambda>t. None", OF e i r]
  have "error (analyzeLips_settled (\<lambda>t. None) ?o (analyzeLips_begin (getApiKey VarUndefined) ?s))
      = analysis_failed_msg"
    by (subst th[THEN conjunct2, THEN conjunct2, THEN conjunct2]) simp
  with i show ?thesis by (simp add: analysis_failed_msg_def)
qed

section \<open>The colour of a status\<close>

text \<open>
  C9. The class is chosen by substring match on the lower-cased status: a status whose
  lower-cased text contains \<^verbatim>\<open>well\<close> gets the emerald (healthy) class, one that contains
  \<^verbatim>\<open>mild\<close> and not \<^verbatim>\<open>well\<close> the amber (caution) class, any other the rose (alert)
  class, for the background and the text variant. A response whose text parses to an object
  with a string as overallStatus, a safe integer as dehydrationScore and moisture and
  dryness that can be rendered is stored as the result; the result panel is shown, its box
  has the class of that status, its heading reads the digits of the score followed by
  \<^verbatim>\<open>%\<close>, and the status and the two lines are shown as they are. With dehydrationScore 82
  and overallStatus "Well Hydrated" the heading reads "82%" and the box has the emerald
  class.
\<close>

theorem status_color_by_substring:
  assumes status: "map_of kvs ''overallStatus'' = Some (JStr t)"
    and score: "map_of kvs ''dehydrationScore'' = Some (JNum n)"
    and safe: "safe_integer n"
    and moisture: "member_child (JObj kvs) ''moisture'' = Shown m"
    and dryness: "member_child (JObj kvs) ''dryness'' = Shown d"
    and path: "resultText envelope = Inr txt"
    and parse: "jsonParse txt = Some (JObj kvs)"
  shows "((\<exists>a b. toLowerCase t = a @ ''well'' @ b) \<longrightarrow>
            getStatusColor (JStr t) (Some ''bg'') = Inr ''bg-emerald-500'' \<and>
            getStatusColor (JStr t) (Some ''text'') = Inr ''text-emerald-600'')
       \<and> (\<not> (\<exists>a b. toLowerCase t = a @ ''well'' @ b) \<and>
            (\<exists>a b. toLowerCase t = a @ ''mild'' @ b) \<longrightarrow>
            getStatusColor (JStr t) (Some ''bg'') = Inr ''bg-amber-500'' \<and>
            getStatusColor (JStr t) (Some ''text'') = Inr ''text-amber-600'')
       \<and> (\<not> (\<exists>a b. toLowerCase t = a @ ''well'' @ b) \<and>
            \<not> (\<exists>a b. toLowerCase t = a @ ''mild'' @ b) \<longrightarrow>
            getStatusColor (JStr t) (Some ''bg'') = Inr ''bg-rose-500'' \<and>
            getStatusColor (JStr t) (Some ''text'') = Inr ''text-rose-600'')
       \<and> results (analyzeLips_settled jsonParse (BodyJson envelope) s) = JObj kvs
       \<and> results_panel (analyzeLips_settled jsonParse (BodyJson envelope) s)
       \<and> panel_color (JObj kvs) = getStatusColor (JStr t) (Some ''bg'')
       \<and> displayed_score (JObj kvs) = Shown (show_int n @ ''%'')
       \<and> result_panel_view (results (analyzeLips_settled jsonParse (BodyJson envelope) s)) =
           Shown \<lparr> box_class =
                     (if (\<exists>a b. toLowerCase t = a @ ''well'' @ b) then ''bg-emerald-500''
                      else if (\<exists>a b. toLowerCase t = a @ ''mild'' @ b) then ''bg-amber-500''
                      else ''bg-rose-500''),
                   heading = show_int n @ ''%'',
                   status_line = t,
                   moisture_line = m,
                   texture_line = d \<rparr>
       \<and> (t = ''Well Hydrated'' \<and> n = 82 \<longrightarrow>
            displayed_score (JObj kvs) = Shown ''82%'' \<and>
            panel_color (JObj kvs) = Inr ''bg-emerald-500'')"
proof -
  let ?cls = "if (\<exists>a b. toLowerCase t = a @ ''well'' @ b) then ''bg-emerald-500''
              else if (\<exists>a b. toLowerCase t = a @ ''mild'' @ b) then ''bg-amber-500''
              else ''bg-rose-500''"
  have res: "results (analyzeLips_settled jsonParse (BodyJson envelope) s) = JObj kvs"
    using path parse by (simp add: analyzeLips_settled_def try_block_def bind_err_def)
  have shown_panel: "results_panel (analyzeLips_settled jsonParse (BodyJson envelope) s)"
    unfolding results_panel_def res by simp
  have col: "getStatusColor (JStr t) (Some ''bg'') = Inr ?cls"
    by (simp add: getStatusColor_str str_includes_iff)
  have pc: "panel_color (JObj kvs) = getStatusColor (JStr t) (Some ''bg'')"
    using status by (simp add: panel_color_def bind_err_def)
  have sc: "displayed_score (JObj kvs) = Shown (show_int n @ ''%'')"
    using score safe by (simp add: displayed_score_def member_child_def)
  have st: "member_child (JObj kvs) ''overallStatus'' = Shown t"
    using status by (simp add: member_child_def)
  have view: "result_panel_view (JObj kvs) =
      Shown \<lparr> box_class = ?cls, heading = show_int n @ ''%'', status_line = t,
              moisture_line = m, texture_line = d \<rparr>"
    unfolding result_panel_view_def pc col sc st moisture dryness by simp
  have inst: "t = ''Well Hydrated'' \<and> n = 82 \<longrightarrow>
      displayed_score (JObj kvs) = Shown ''82%'' \<and> panel_color (JObj kvs) = Inr ''bg-emerald-500''"
  proof
    assume tn: "t = ''Well Hydrated'' \<and> n = 82"
    have "str_includes (toLowerCase ''Well Hydrated'') ''well''"
      unfolding str_includes_iff lower_well_hydrated
      by (rule exI[of _ "[]"], rule exI[of _ "'' hydrated''"]) simp
    then have "getStatusColor (JStr ''Well Hydrated'') (Some ''bg'') = Inr ''bg-emerald-500''"
      by (simp add: getStatusColor_str)
    with tn pc sc show_int_82
    show "displayed_score (JObj kvs) = Shown ''82%'' \<and> panel_color (JObj kvs) = Inr ''bg-emerald-500''"
      by simp
  qed
  have cls3: "((\<exists>a b. toLowerCase t = a @ ''well'' @ b) \<longrightarrow>
            getStatusColor (JStr t) (Some ''bg'') = Inr ''bg-emerald-500'' \<and>
            getStatusColor (JStr t) (Some ''text'') = Inr ''text-emerald-600'')
       \<and> (\<not> (\<exists>a b. toLowerCase t = a @ ''well'' @ b) \<and>
            (\<exists>a b. toLowerCase t = a @ ''mild'' @ b) \<longrightarrow>
            getStatusColor (JStr t) (Some ''bg'') = Inr ''bg-amber-500'' \<and>
            getStatusColor (JStr t) (Some ''text'') = Inr ''text-amber-600'')
       \<and> (\<not> (\<exists>a b. toLowerCase t = a @ ''well'' @ b) \<and>
            \<not> (\<exists>a b. toLowerCase t = a @ ''mild'' @ b) \<longrightarrow>
            getStatusColor (JStr t) (Some ''bg'') = Inr ''bg-rose-500'' \<and>
            getStatusColor (JStr t) (Some ''text'') = Inr ''text-rose-600'')"
    by (simp add: getStatusColor_str str_includes_iff)
  note c1 = cls3[THEN conjunct1]
  note c2 = cls3[THEN conjunct2, THEN conjunct1]
  note c3 = cls3[THEN conjunct2, THEN conjunct2]
  note view' = view[folded res]
  show ?thesis
    by (intro conjI) (rule c1, rule c2, rule c3, rule res, rule shown_panel, rule pc, rule sc,
        rule view', rule inst)
qed

text \<open>The theorem of C9 at the reply of the API.\<close>

theorem status_color_by_substring_witness:
  "resultText sample_envelope = Inr (JStr sample_reply_text)
   \<and> sample_parse (JStr sample_reply_text) = Some sample_result
   \<and> results (analyzeLips_settled sample_parse (BodyJson sample_envelope) init) = sample_result
   \<and> result_panel_view (results (analyzeLips_settled sample_parse (BodyJson sample_envelope) init)) =
       Shown \<lparr> box_class = ''bg-emerald-500'', heading = ''82%'',
               status_line = ''Well Hydrated'', moisture_line = ''Good'',
               texture_line = ''Smooth'' \<rparr>"
proof -
  let ?kvs = "[(''overallStatus'', JStr ''Well Hydrated''),
           (''dehydrationScore'', JNum 82),
           (''crackness'', JStr ''None''),
           (''dryness'', JStr ''Smooth''),
           (''moisture'', JStr ''Good''),
           (''color'', JStr ''Pink''),
           (''recommendations'', JArr [JStr ''Keep drinking water''])]"
  have sr: "sample_result = JObj ?kvs" by (simp add: sample_result_def)
  have k1: "map_of ?kvs ''overallStatus'' = Some (JStr ''Well Hydrated'')" by simp
  have k2: "map_of ?kvs ''dehydrationScore'' = Some (JNum 82)" by simp
  have k3: "safe_integer 82" by (simp add: safe_integer_def)
  have k4: "member_child (JObj ?kvs) ''moisture'' = Shown ''Good''"
    by (simp add: member_child_def)
  have k5: "member_child (JObj ?kvs) ''dryness'' = Shown ''Smooth''"
    by (simp add: member_child_def)
  have p: "resultText sample_envelope = Inr (JStr sample_reply_text)"
    by (simp add: resultText_def bind_err_def sample_envelope_def)
  have q: "sample_parse (JStr sample_reply_text) = Some (JObj ?kvs)"
    by (simp add: sample_parse_def sample_result_def)
  have w: "\<exists>a b. toLowerCase ''Well Hydrated'' = a @ ''well'' @ b"
    unfolding lower_well_hydrated
    by (rule exI[of _ "[]"], rule exI[of _ "'' hydrated''"]) simp
  note th = status_color_by_substring[of ?kvs "''Well Hydrated''" 82 "''Good''" "''Smooth''"
      sample_envelope "JStr sample_reply_text" sample_parse init, OF k1 k2 k3 k4 k5 p q]
  note c2 = conjunct2
  note r = th[THEN c2, THEN c2, THEN c2, THEN conjunct1]
  note th8 = th[THEN c2, THEN c2, THEN c2, THEN c2, THEN c2, THEN c2, THEN c2, THEN conjunct1]
  have "result_panel_view
        (results (analyzeLips_settled sample_parse (BodyJson sample_envelope) init)) =
       Shown \<lparr> box_class =
                 (if (\<exists>a b. toLowerCase ''Well Hydrated'' = a @ ''well'' @ b) then ''bg-emerald-500''
                  else if (\<exists>a b. toLowerCase ''Well Hydrated'' = a @ ''mild'' @ b)
                       then ''bg-amber-500''
                  else ''bg-rose-500''),
               heading = show_int 82 @ ''%'',
               status_line = ''Well Hydrated'',
               moisture_line = ''Good'',
               texture_line = ''Smooth'' \<rparr>" by (rule th8)
  then have v: "result_panel_view
        (results (analyzeLips_settled sample_parse (BodyJson sample_envelope) init)) =
       Shown \<lparr> box_class = ''bg-emerald-500'', heading = ''82%'',
               status_line = ''Well Hydrated'', moisture_line = ''Good'',
               texture_line = ''Smooth'' \<rparr>"
    using w show_int_82 by simp
  from p q r v show ?thesis unfolding sr by simp
qed

section \<open>The colour of an absent status\<close>

text \<open>
  C10. For a status that is null or undefined \<open>getStatusColor\<close> throws nothing and returns
  the rose (alert) class: the background class when the variant is \<^verbatim>\<open>'bg'\<close> or left out,
  the text class for any other variant.
\<close>

theorem status_color_absent:
  "getStatusColor JNull ty =
     Inr (if ty = None \<or> ty = Some ''bg'' then ''bg-rose-500'' else ''text-rose-600'')
   \<and> getStatusColor JUndefined ty =
     Inr (if ty = None \<or> ty = Some ''bg'' then ''bg-rose-500'' else ''text-rose-600'')"
  by (cases ty) (simp_all add: getStatusColor_def bind_err_def startsWith_def)


end
